theory Spec2Isabelle
  imports Complex_Main
begin

section \<open>The restaurant simulation of \<^verbatim>\<open>src/restaurant.ts\<close>\<close>

text \<open>
  The classes \<^verbatim>\<open>DiningTime\<close>, \<^verbatim>\<open>Table\<close>, \<^verbatim>\<open>Party\<close>, \<^verbatim>\<open>Restaurant\<close> and \<^verbatim>\<open>Person\<close>
  are embedded as records and functions over an explicit store.

  \<^item> A TypeScript \<^verbatim>\<open>number\<close> is a real number here. Rounding, \<^verbatim>\<open>NaN\<close> and the
    infinities of IEEE doubles are outside the model.
  \<^item> \<^verbatim>\<open>Person\<close> and \<^verbatim>\<open>Table\<close> objects are mutable and refer to each other, so they
    live in a store: a reference is an address, the store maps every address to the
    object found there.
  \<^item> An array (\<^verbatim>\<open>Table.patrons\<close>, \<^verbatim>\<open>Party.members\<close>, \<^verbatim>\<open>Restaurant.tables\<close>,
    \<^verbatim>\<open>Restaurant.waitingQueue\<close>) is a list value owned by the object that holds it,
    as it is when every table is constructed with the default \<^verbatim>\<open>patrons = []\<close>: one
    array object shared by two tables is outside the model.
  \<^item> A method that can throw returns the store it leaves behind together with an
    outcome: the returned value, or the error thrown.
\<close>

subsection \<open>Data\<close>

type_synonym number = real
type_synonym person_ref = nat
type_synonym table_ref = nat

record DiningTime =
  lowerBound :: number
  upperBound :: number

record Table =
  table_id :: number
  capacity :: number
  patrons :: "person_ref list"

record Party =
  members :: "person_ref list"

record Person =
  person_id :: number
  name :: string
  age :: number
  diningTime :: DiningTime
  actualDiningTime :: number
  sitting_at_table :: "table_ref option"

text \<open>
  The state is the store of \<^verbatim>\<open>Person\<close> and \<^verbatim>\<open>Table\<close> objects and the three fields of
  the one \<^verbatim>\<open>Restaurant\<close>.
\<close>

record state =
  persons :: "person_ref \<Rightarrow> Person"
  tableStore :: "table_ref \<Rightarrow> Table"
  tables :: "table_ref list"
  waitingQueue :: "Party list"
  currentTime :: number

text \<open>The two \<^verbatim>\<open>throw new Error(...)\<close> of \<^verbatim>\<open>Person.sitDown\<close>, with what the message names.\<close>

datatype error =
  AlreadySitting string
| TableFull number

datatype 'a outcome =
  Returned 'a
| Threw error

subsection \<open>Constructors\<close>

definition new_DiningTime :: "number \<Rightarrow> number \<Rightarrow> DiningTime" where
  "new_DiningTime lo hi = \<lparr>lowerBound = lo, upperBound = hi\<rparr>"

text \<open>
  \<^verbatim>\<open>interpolate\<close> draws \<^verbatim>\<open>randomizer.float()\<close>; the class \<^verbatim>\<open>Randomizer\<close> is not part of
  the sources, so the number drawn is the parameter \<open>u\<close>.
\<close>

definition interpolate :: "DiningTime \<Rightarrow> number \<Rightarrow> number" where
  "interpolate d u = lowerBound d + u * (upperBound d - lowerBound d)"

definition new_Table :: "number \<Rightarrow> number \<Rightarrow> person_ref list \<Rightarrow> Table" where
  "new_Table i c ps = \<lparr>table_id = i, capacity = c, patrons = ps\<rparr>"

definition new_Party :: "person_ref list \<Rightarrow> Party" where
  "new_Party ms = \<lparr>members = ms\<rparr>"

definition getSize :: "Party \<Rightarrow> nat" where
  "getSize party = length (members party)"

definition new_Person :: "number \<Rightarrow> string \<Rightarrow> number \<Rightarrow> DiningTime \<Rightarrow> number \<Rightarrow> Person" where
  "new_Person i n a d u =
     \<lparr>person_id = i, name = n, age = a, diningTime = d,
      actualDiningTime = interpolate d u, sitting_at_table = None\<rparr>"

definition new_Restaurant ::
  "(person_ref \<Rightarrow> Person) \<Rightarrow> (table_ref \<Rightarrow> Table) \<Rightarrow> table_ref list \<Rightarrow> state" where
  "new_Restaurant ps ts tabs =
     \<lparr>persons = ps, tableStore = ts, tables = tabs, waitingQueue = [], currentTime = 0\<rparr>"

subsection \<open>Table\<close>

definition addPatron :: "table_ref \<Rightarrow> person_ref \<Rightarrow> state \<Rightarrow> state \<times> bool" where
  "addPatron t p s =
     (let tb = tableStore s t in
      if real (length (patrons tb)) < capacity tb
      then (s\<lparr>tableStore := (tableStore s)(t := tb\<lparr>patrons := patrons tb @ [p]\<rparr>)\<rparr>, True)
      else (s, False))"

subsection \<open>Person\<close>

definition sitDown :: "person_ref \<Rightarrow> table_ref \<Rightarrow> state \<Rightarrow> state \<times> unit outcome" where
  "sitDown p t s =
     (if sitting_at_table (persons s p) \<noteq> None
      then (s, Threw (AlreadySitting (name (persons s p))))
      else (case addPatron t p s of
              (s1, was_seated) \<Rightarrow>
                if \<not> was_seated then (s1, Threw (TableFull (table_id (tableStore s1 t))))
                else (s1\<lparr>persons := (persons s1)(p := (persons s1 p)\<lparr>sitting_at_table := Some t\<rparr>)\<rparr>,
                      Returned ())))"

definition leaveTable :: "person_ref \<Rightarrow> table_ref \<Rightarrow> state \<Rightarrow> state" where
  "leaveTable p t s =
     (if sitting_at_table (persons s p) = Some t
      then s\<lparr>persons := (persons s)(p := (persons s p)\<lparr>sitting_at_table := None\<rparr>)\<rparr>
      else s)"

text \<open>
  \<^verbatim>\<open>emptyTable\<close>: \<^verbatim>\<open>forEach\<close> over the patrons array, then the array is replaced by an
  empty one.
\<close>

definition emptyTable :: "table_ref \<Rightarrow> state \<Rightarrow> state" where
  "emptyTable t s =
     (let s1 = fold (\<lambda>patron. leaveTable patron t) (patrons (tableStore s t)) s in
      s1\<lparr>tableStore := (tableStore s1)(t := (tableStore s1 t)\<lparr>patrons := []\<rparr>)\<rparr>)"

subsection \<open>Restaurant\<close>

definition addToWaitingQueue :: "Party \<Rightarrow> state \<Rightarrow> state" where
  "addToWaitingQueue party s = s\<lparr>waitingQueue := waitingQueue s @ [party]\<rparr>"

definition findAvailableTable :: "nat \<Rightarrow> state \<Rightarrow> table_ref option" where
  "findAvailableTable partySize s =
     find (\<lambda>t. length (patrons (tableStore s t)) = 0 \<and> capacity (tableStore s t) \<ge> real partySize)
       (tables s)"

text \<open>The \<^verbatim>\<open>for ... of party.getMembers()\<close> loop of \<^verbatim>\<open>seatParty\<close>; a throw leaves it.\<close>

fun sitDownAll :: "person_ref list \<Rightarrow> table_ref \<Rightarrow> state \<Rightarrow> state \<times> bool outcome" where
  "sitDownAll [] t s = (s, Returned True)"
| "sitDownAll (person # rest) t s =
     (case sitDown person t s of
        (s1, Threw e) \<Rightarrow> (s1, Threw e)
      | (s1, Returned _) \<Rightarrow> sitDownAll rest t s1)"

definition seatParty :: "Party \<Rightarrow> state \<Rightarrow> state \<times> bool outcome" where
  "seatParty party s =
     (case findAvailableTable (getSize party) s of
        None \<Rightarrow> (s, Returned False)
      | Some t \<Rightarrow> sitDownAll (members party) t s)"

text \<open>
  \<^verbatim>\<open>Math.max(...patrons.map(p => p.getActualDiningTime()))\<close>, called on a non-empty array
  only: the first element and the rest.
\<close>

definition maxDiningTime :: "state \<Rightarrow> person_ref \<Rightarrow> person_ref list \<Rightarrow> number" where
  "maxDiningTime s p ps =
     fold max (map (\<lambda>q. actualDiningTime (persons s q)) ps) (actualDiningTime (persons s p))"

text \<open>The body of the first loop of \<^verbatim>\<open>simulateStep\<close>, for one table.\<close>

definition checkTable :: "table_ref \<Rightarrow> state \<Rightarrow> state" where
  "checkTable t s =
     (case patrons (tableStore s t) of
        [] \<Rightarrow> s
      | p # ps \<Rightarrow> if currentTime s \<ge> maxDiningTime s p ps then emptyTable t s else s)"

definition evictDuePatrons :: "state \<Rightarrow> state" where
  "evictDuePatrons s = fold checkTable (tables s) s"

lemma leaveTable_waitingQueue [simp]: "waitingQueue (leaveTable p t s) = waitingQueue s"
  by (simp add: leaveTable_def)

lemma sitDown_waitingQueue [simp]: "waitingQueue (fst (sitDown p t s)) = waitingQueue s"
  by (simp add: sitDown_def addPatron_def Let_def)

lemma sitDownAll_waitingQueue [simp]: "waitingQueue (fst (sitDownAll ps t s)) = waitingQueue s"
proof (induction ps arbitrary: s)
  case Nil
  show ?case by simp
next
  case (Cons p ps)
  obtain s1 r where sd: "sitDown p t s = (s1, r)" by (cases "sitDown p t s")
  have q: "waitingQueue s1 = waitingQueue s"
    using sitDown_waitingQueue [of p t s] sd by simp
  show ?case
  proof (cases r)
    case (Returned u)
    with sd q Cons.IH [of s1] show ?thesis by simp
  next
    case (Threw e)
    with sd q show ?thesis by simp
  qed
qed

lemma seatParty_waitingQueue [simp]: "waitingQueue (fst (seatParty party s)) = waitingQueue s"
  by (simp add: seatParty_def split: option.split)

text \<open>
  The second loop of \<^verbatim>\<open>simulateStep\<close>: while the queue is not empty, look for a table
  for its head; if there is one, \<^verbatim>\<open>shift\<close> the queue and seat the party, else
  \<^verbatim>\<open>break\<close>. Every round shortens the queue, so the loop ends.
\<close>

function seatWaitingParties :: "state \<Rightarrow> state \<times> unit outcome" where
  "seatWaitingParties s =
     (case waitingQueue s of
        [] \<Rightarrow> (s, Returned ())
      | nextParty # rest \<Rightarrow>
          (case findAvailableTable (getSize nextParty) s of
             Some t \<Rightarrow>
               (case seatParty nextParty (s\<lparr>waitingQueue := rest\<rparr>) of
                  (s1, Threw e) \<Rightarrow> (s1, Threw e)
                | (s1, Returned _) \<Rightarrow> seatWaitingParties s1)
           | None \<Rightarrow> (s, Returned ())))"
  by pat_completeness auto
termination
proof (relation "measure (\<lambda>s. length (waitingQueue s))")
  show "wf (measure (\<lambda>s. length (waitingQueue s)))" by simp
next
  fix s :: state and nextParty rest t s1 r u
  assume q: "waitingQueue s = nextParty # rest"
    and sp: "(s1, r) = seatParty nextParty (s\<lparr>waitingQueue := rest\<rparr>)"
  have "waitingQueue (fst (seatParty nextParty (s\<lparr>waitingQueue := rest\<rparr>))) = rest"
    by simp
  with sp have "waitingQueue s1 = rest"
    by (metis fst_conv)
  with q show "(s1, s) \<in> measure (\<lambda>s. length (waitingQueue s))" by simp
qed

definition simulateStep :: "number \<Rightarrow> state \<Rightarrow> state \<times> unit outcome" where
  "simulateStep timeStep s =
     seatWaitingParties (evictDuePatrons (s\<lparr>currentTime := currentTime s + timeStep\<rparr>))"

text \<open>
  \<^verbatim>\<open>runSimulation\<close>: the loop may run forever, which is the value \<open>None\<close>; a throw of
  \<^verbatim>\<open>simulateStep\<close> leaves the loop.
\<close>

partial_function (option) runSimulation ::
  "number \<Rightarrow> number \<Rightarrow> state \<Rightarrow> (state \<times> unit outcome) option" where
  "runSimulation duration timeStep s =
     (if currentTime s < duration
      then (case simulateStep timeStep s of
              (s1, Threw e) \<Rightarrow> Some (s1, Threw e)
            | (s1, Returned _) \<Rightarrow> runSimulation duration timeStep s1)
      else Some (s, Returned ()))"

declare runSimulation.simps [code]

subsection \<open>Properties of states\<close>

text \<open>
  Seating is consistent when, for every person and every table of the restaurant, the
  person's \<^verbatim>\<open>sitting_at_table\<close> is that table exactly when the table's patrons contain
  the person.
\<close>

definition seating_consistent :: "state \<Rightarrow> bool" where
  "seating_consistent s \<longleftrightarrow>
     (\<forall>p. \<forall>t \<in> set (tables s).
        sitting_at_table (persons s p) = Some t \<longleftrightarrow> p \<in> set (patrons (tableStore s t)))"

text \<open>A table is within capacity when it has no more patrons than its capacity.\<close>

definition within_capacity :: "Table \<Rightarrow> bool" where
  "within_capacity tb \<longleftrightarrow> real (length (patrons tb)) \<le> capacity tb"

text \<open>
  The dining time of a table has elapsed when the table has a patron and the clock has
  reached the largest dining time among its patrons: the test of the first loop of
  \<^verbatim>\<open>simulateStep\<close>.
\<close>

definition dining_elapsed :: "state \<Rightarrow> table_ref \<Rightarrow> bool" where
  "dining_elapsed s t \<longleftrightarrow>
     (case patrons (tableStore s t) of
        [] \<Rightarrow> False
      | p # ps \<Rightarrow> maxDiningTime s p ps \<le> currentTime s)"

text \<open>
  What the second loop of \<^verbatim>\<open>simulateStep\<close> does to a state \<open>s\<close>, said of a number \<open>k\<close>
  of parties: the queue it leaves is the queue of \<open>s\<close> without its first \<open>k\<close> parties;
  whoever is at a table afterwards was there before or belongs to one of these \<open>k\<close>
  parties; and when the loop ends without a throw, every member of these \<open>k\<close> parties
  is seated and the queue left is empty or has a head for which no table is available.
\<close>

definition admits_prefix :: "state \<Rightarrow> nat \<Rightarrow> bool" where
  "admits_prefix s k \<longleftrightarrow>
     (let s' = fst (seatWaitingParties s) in
      k \<le> length (waitingQueue s)
      \<and> waitingQueue s' = drop k (waitingQueue s)
      \<and> (\<forall>t p. p \<in> set (patrons (tableStore s' t)) \<longrightarrow>
            p \<in> set (patrons (tableStore s t))
            \<or> (\<exists>party \<in> set (take k (waitingQueue s)). p \<in> set (members party)))
      \<and> (snd (seatWaitingParties s) = Returned () \<longrightarrow>
            (\<forall>party \<in> set (take k (waitingQueue s)). \<forall>p \<in> set (members party).
               sitting_at_table (persons s' p) \<noteq> None)
          \<and> (case drop k (waitingQueue s) of
               [] \<Rightarrow> True
             | party # _ \<Rightarrow> findAvailableTable (getSize party) s' = None)))"

subsection \<open>Example states\<close>

definition plain_person :: "number \<Rightarrow> Person" where
  "plain_person a = new_Person 0 ''guest'' 30 (new_DiningTime a a) 0"

definition seated :: "Person \<Rightarrow> table_ref \<Rightarrow> Person" where
  "seated p t = p\<lparr>sitting_at_table := Some t\<rparr>"

text \<open>
  Three tables in list order: a six-seat table with one patron, an empty six-seat table
  and an empty two-seat table.
\<close>

definition ex_tables :: state where
  "ex_tables = new_Restaurant
     ((\<lambda>_. plain_person 30)(7 := seated (plain_person 30) 0))
     ((\<lambda>_. new_Table 0 0 [])(0 := new_Table 1 6 [7], 1 := new_Table 2 6 [], 2 := new_Table 3 2 []))
     [0, 1, 2]"

text \<open>
  A four-seat table taken by persons 1 and 2, whose dining times are 30 and 50, and a
  free two-seat table; a party of four waits ahead of a party of two.
\<close>

definition ex_blocked :: state where
  "ex_blocked = addToWaitingQueue (new_Party [7, 8]) (addToWaitingQueue (new_Party [3, 4, 5, 6])
     (new_Restaurant
        ((\<lambda>_. plain_person 60)(1 := seated (plain_person 30) 0, 2 := seated (plain_person 50) 0))
        ((\<lambda>_. new_Table 0 0 [])(0 := new_Table 1 4 [1, 2], 1 := new_Table 2 2 []))
        [0, 1]))"

text \<open>One table with a capacity of one and a half, taken by person 1.\<close>

definition ex_half :: state where
  "ex_half = new_Restaurant
     ((\<lambda>_. plain_person 60)(1 := seated (plain_person 60) 0))
     ((\<lambda>_. new_Table 0 0 [])(0 := new_Table 1 (3 / 2) [1]))
     [0]"

text \<open>Two free tables; the same party of one was added to the queue twice.\<close>

definition ex_twice :: state where
  "ex_twice = addToWaitingQueue (new_Party [1]) (addToWaitingQueue (new_Party [1])
     (new_Restaurant
        (\<lambda>_. plain_person 60)
        ((\<lambda>_. new_Table 0 0 [])(0 := new_Table 1 2 [], 1 := new_Table 2 2 []))
        [0, 1]))"

section \<open>Basic facts\<close>

declare seatWaitingParties.simps [simp del]

text \<open>The equations that evaluate the example states and the operations on them.\<close>

lemmas ex_defs = ex_blocked_def ex_tables_def new_Restaurant_def new_Table_def new_Party_def
  new_Person_def new_DiningTime_def plain_person_def seated_def interpolate_def
  addToWaitingQueue_def

lemmas op_defs = simulateStep_def evictDuePatrons_def checkTable_def maxDiningTime_def
  emptyTable_def leaveTable_def seatWaitingParties.simps seatParty_def findAvailableTable_def
  getSize_def sitDown_def addPatron_def Let_def

lemma ex_blocked_consistent: "seating_consistent ex_blocked"
  unfolding seating_consistent_def by (auto simp: ex_defs split: if_splits)

lemma seating_consistentD:
  "seating_consistent s \<Longrightarrow> t \<in> set (tables s) \<Longrightarrow>
     sitting_at_table (persons s p) = Some t \<longleftrightarrow> p \<in> set (patrons (tableStore s t))"
  by (simp add: seating_consistent_def)

lemma leaveTable_fields [simp]:
  "tableStore (leaveTable p t s) = tableStore s"
  "tables (leaveTable p t s) = tables s"
  "currentTime (leaveTable p t s) = currentTime s"
  by (simp_all add: leaveTable_def)

lemma leaveTable_sitting:
  "sitting_at_table (persons (leaveTable p t s) q) =
     (if q = p \<and> sitting_at_table (persons s q) = Some t then None
      else sitting_at_table (persons s q))"
  by (auto simp: leaveTable_def)

lemma leaveTable_actualDiningTime [simp]:
  "actualDiningTime (persons (leaveTable p t s) q) = actualDiningTime (persons s q)"
  by (simp add: leaveTable_def)

lemma leaveAll_fields [simp]:
  "tableStore (fold (\<lambda>p. leaveTable p t) ps s) = tableStore s"
  "tables (fold (\<lambda>p. leaveTable p t) ps s) = tables s"
  "currentTime (fold (\<lambda>p. leaveTable p t) ps s) = currentTime s"
  "waitingQueue (fold (\<lambda>p. leaveTable p t) ps s) = waitingQueue s"
  by (induction ps arbitrary: s; simp)+

lemma leaveAll_sitting:
  "sitting_at_table (persons (fold (\<lambda>p. leaveTable p t) ps s) q) =
     (if q \<in> set ps \<and> sitting_at_table (persons s q) = Some t then None
      else sitting_at_table (persons s q))"
  by (induction ps arbitrary: s) (auto simp: leaveTable_sitting)

lemma leaveAll_actualDiningTime [simp]:
  "actualDiningTime (persons (fold (\<lambda>p. leaveTable p t) ps s) q) = actualDiningTime (persons s q)"
  by (induction ps arbitrary: s) auto

lemma emptyTable_fields [simp]:
  "tables (emptyTable t s) = tables s"
  "currentTime (emptyTable t s) = currentTime s"
  "waitingQueue (emptyTable t s) = waitingQueue s"
  by (simp_all add: emptyTable_def Let_def)

lemma emptyTable_patrons:
  "patrons (tableStore (emptyTable t s) u) = (if u = t then [] else patrons (tableStore s u))"
  by (simp add: emptyTable_def Let_def)

lemma emptyTable_capacity [simp]:
  "capacity (tableStore (emptyTable t s) u) = capacity (tableStore s u)"
  by (simp add: emptyTable_def Let_def)

lemma emptyTable_sitting:
  "sitting_at_table (persons (emptyTable t s) q) =
     (if q \<in> set (patrons (tableStore s t)) \<and> sitting_at_table (persons s q) = Some t then None
      else sitting_at_table (persons s q))"
  by (simp add: emptyTable_def Let_def leaveAll_sitting)

lemma emptyTable_actualDiningTime [simp]:
  "actualDiningTime (persons (emptyTable t s) q) = actualDiningTime (persons s q)"
  by (simp add: emptyTable_def Let_def)

lemma emptyTable_consistent:
  "seating_consistent s \<Longrightarrow> seating_consistent (emptyTable t s)"
  unfolding seating_consistent_def
  by (auto simp: emptyTable_patrons emptyTable_sitting) (metis option.inject)+

lemma checkTable_consistent:
  "seating_consistent s \<Longrightarrow> seating_consistent (checkTable t s)"
  by (simp add: checkTable_def emptyTable_consistent split: list.split)

lemma checkTable_tables [simp]: "tables (checkTable t s) = tables s"
  by (simp add: checkTable_def split: list.split)

lemma fold_checkTable_consistent:
  "seating_consistent s \<Longrightarrow> seating_consistent (fold checkTable ts s)"
  by (induction ts arbitrary: s) (simp_all add: checkTable_consistent)

lemma evictDuePatrons_consistent:
  "seating_consistent s \<Longrightarrow> seating_consistent (evictDuePatrons s)"
  by (simp add: evictDuePatrons_def fold_checkTable_consistent)

lemma sitDown_cases:
  "sitDown p t s = (s, Threw (AlreadySitting (name (persons s p))))
     \<and> sitting_at_table (persons s p) \<noteq> None
   \<or> sitDown p t s = (s, Threw (TableFull (table_id (tableStore s t))))
     \<and> sitting_at_table (persons s p) = None
     \<and> \<not> real (length (patrons (tableStore s t))) < capacity (tableStore s t)
   \<or> sitDown p t s =
       (s\<lparr>tableStore := (tableStore s)(t := (tableStore s t)\<lparr>patrons := patrons (tableStore s t) @ [p]\<rparr>),
          persons := (persons s)(p := (persons s p)\<lparr>sitting_at_table := Some t\<rparr>)\<rparr>, Returned ())
     \<and> sitting_at_table (persons s p) = None
     \<and> real (length (patrons (tableStore s t))) < capacity (tableStore s t)"
  by (simp add: sitDown_def addPatron_def Let_def)

lemma sitDown_consistent:
  assumes c: "seating_consistent s"
  shows "seating_consistent (fst (sitDown p t s))"
proof -
  let ?s' = "s\<lparr>tableStore := (tableStore s)(t := (tableStore s t)\<lparr>patrons := patrons (tableStore s t) @ [p]\<rparr>),
          persons := (persons s)(p := (persons s p)\<lparr>sitting_at_table := Some t\<rparr>)\<rparr>"
  have "seating_consistent ?s'" if n: "sitting_at_table (persons s p) = None"
    unfolding seating_consistent_def
  proof (intro allI ballI)
    fix q u
    assume "u \<in> set (tables ?s')"
    then have u: "u \<in> set (tables s)" by simp
    from c u have inv: "sitting_at_table (persons s q) = Some u \<longleftrightarrow> q \<in> set (patrons (tableStore s u))"
      by (simp add: seating_consistent_def)
    from seating_consistentD [OF c u, of p] n have pu: "p \<notin> set (patrons (tableStore s u))"
      by simp
    show "sitting_at_table (persons ?s' q) = Some u \<longleftrightarrow> q \<in> set (patrons (tableStore ?s' u))"
      using inv pu by (cases "q = p"; cases "u = t") auto
  qed
  with sitDown_cases [of p t s] c show ?thesis
    by (elim disjE conjE) simp_all
qed

lemma sitDownAll_consistent:
  "seating_consistent s \<Longrightarrow> seating_consistent (fst (sitDownAll ps t s))"
proof (induction ps arbitrary: s)
  case Nil
  then show ?case by simp
next
  case (Cons p ps)
  obtain s1 r where sd: "sitDown p t s = (s1, r)" by (cases "sitDown p t s")
  have c1: "seating_consistent s1"
    using sitDown_consistent [OF Cons.prems, of p t] sd by simp
  show ?case
  proof (cases r)
    case (Returned u)
    with sd Cons.IH [OF c1] show ?thesis by simp
  next
    case (Threw e)
    with sd c1 show ?thesis by simp
  qed
qed

lemma seatParty_consistent:
  "seating_consistent s \<Longrightarrow> seating_consistent (fst (seatParty party s))"
  by (simp add: seatParty_def sitDownAll_consistent split: option.split)

lemma seatWaitingParties_invariant:
  assumes seat: "\<And>party s. I s \<Longrightarrow> I (fst (seatParty party s))"
    and queue: "\<And>s q. I s \<Longrightarrow> I (s\<lparr>waitingQueue := q\<rparr>)"
  shows "I s \<Longrightarrow> I (fst (seatWaitingParties s))"
proof (induction s rule: seatWaitingParties.induct)
  case (1 s)
  show ?case
  proof (cases "waitingQueue s")
    case Nil
    with "1.prems" show ?thesis by (simp add: seatWaitingParties.simps [of s])
  next
    case (Cons nextParty rest)
    show ?thesis
    proof (cases "findAvailableTable (getSize nextParty) s")
      case None
      with Cons "1.prems" show ?thesis by (simp add: seatWaitingParties.simps [of s])
    next
      case (Some t)
      obtain s1 r where sp: "seatParty nextParty (s\<lparr>waitingQueue := rest\<rparr>) = (s1, r)"
        by (cases "seatParty nextParty (s\<lparr>waitingQueue := rest\<rparr>)")
      have i1: "I s1"
        using seat [OF queue [OF "1.prems", of rest], of nextParty] sp by simp
      show ?thesis
      proof (cases r)
        case (Threw e)
        with Cons Some sp i1 show ?thesis by (simp add: seatWaitingParties.simps [of s])
      next
        case (Returned b)
        have "I (fst (seatWaitingParties s1))"
          using "1.IH" [OF Cons Some sp [symmetric] Returned i1] .
        with Cons Some sp Returned show ?thesis by (simp add: seatWaitingParties.simps [of s])
      qed
    qed
  qed
qed

lemma runSimulation_invariant:
  assumes step: "\<And>timeStep s. I s \<Longrightarrow> I (fst (simulateStep timeStep s))"
    and run: "runSimulation duration timeStep s = Some r"
    and init: "I s"
  shows "I (fst r)"
proof -
  have "I s \<longrightarrow> I (fst r)"
  proof (rule runSimulation.raw_induct [where P = "\<lambda>d ts s r. I s \<longrightarrow> I (fst r)", OF _ run])
    fix run' d ts s' y
    assume IH: "\<And>d ts s y. run' d ts s = Some y \<Longrightarrow> I s \<longrightarrow> I (fst y)"
      and eq: "(if currentTime s' < d
                then case simulateStep ts s' of
                       (s1, Returned x) \<Rightarrow> run' d ts s1
                     | (s1, Threw e) \<Rightarrow> Some (s1, Threw e)
                else Some (s', Returned ())) = Some y"
    show "I s' \<longrightarrow> I (fst y)"
    proof
      assume i: "I s'"
      show "I (fst y)"
      proof (cases "currentTime s' < d")
        case False
        with eq i show ?thesis by auto
      next
        case True
        obtain s1 o1 where st: "simulateStep ts s' = (s1, o1)"
          by (cases "simulateStep ts s'")
        have i1: "I s1" using step [OF i, of ts] st by simp
        show ?thesis
        proof (cases o1)
          case (Threw e)
          with True st eq have "y = (s1, Threw e)" by simp
          with i1 show ?thesis by simp
        next
          case (Returned u)
          with True st eq have "run' d ts s1 = Some y" by simp
          from IH [OF this] i1 show ?thesis by simp
        qed
      qed
    qed
  qed
  with init show ?thesis by simp
qed

lemma checkTable_currentTime [simp]: "currentTime (checkTable t s) = currentTime s"
  by (simp add: checkTable_def split: list.split)

lemma evictDuePatrons_currentTime [simp]: "currentTime (evictDuePatrons s) = currentTime s"
proof -
  have "currentTime (fold checkTable ts s) = currentTime s" for ts
    by (induction ts arbitrary: s) simp_all
  then show ?thesis by (simp add: evictDuePatrons_def)
qed

lemma sitDown_currentTime [simp]: "currentTime (fst (sitDown p t s)) = currentTime s"
  by (simp add: sitDown_def addPatron_def Let_def)

lemma sitDownAll_currentTime [simp]: "currentTime (fst (sitDownAll ps t s)) = currentTime s"
proof (induction ps arbitrary: s)
  case Nil
  show ?case by simp
next
  case (Cons p ps)
  obtain s1 r where sd: "sitDown p t s = (s1, r)" by (cases "sitDown p t s")
  have q: "currentTime s1 = currentTime s"
    using sitDown_currentTime [of p t s] sd by simp
  show ?case
    using sd q Cons.IH [of s1] by (cases r) simp_all
qed

lemma seatParty_currentTime [simp]: "currentTime (fst (seatParty party s)) = currentTime s"
  by (simp add: seatParty_def split: option.split)

lemma seatWaitingParties_currentTime [simp]:
  "currentTime (fst (seatWaitingParties s)) = currentTime s"
  using seatWaitingParties_invariant [where I = "\<lambda>s'. currentTime s' = currentTime s" and s = s]
  by simp

lemma simulateStep_currentTime:
  "currentTime (fst (simulateStep timeStep s)) = currentTime s + timeStep"
  by (simp add: simulateStep_def)

lemma runSimulation_terminates:
  assumes pos: "0 < timeStep"
  shows "\<exists>r. runSimulation duration timeStep s = Some r"
proof (induction "nat \<lceil>(duration - currentTime s) / timeStep\<rceil>" arbitrary: s rule: less_induct)
  case less
  show ?case
  proof (cases "currentTime s < duration")
    case False
    then show ?thesis by (simp add: runSimulation.simps [of duration timeStep s])
  next
    case True
    obtain s1 o1 where st: "simulateStep timeStep s = (s1, o1)"
      by (cases "simulateStep timeStep s")
    have ct: "currentTime s1 = currentTime s + timeStep"
      using simulateStep_currentTime [of timeStep s] st by simp
    show ?thesis
    proof (cases o1)
      case (Threw e)
      with True st show ?thesis by (simp add: runSimulation.simps [of duration timeStep s])
    next
      case (Returned u)
      have "(duration - currentTime s1) / timeStep = (duration - currentTime s) / timeStep - 1"
        using pos ct by (simp add: field_simps)
      moreover have "0 < (duration - currentTime s) / timeStep"
        using pos True by simp
      ultimately have "nat \<lceil>(duration - currentTime s1) / timeStep\<rceil>
          < nat \<lceil>(duration - currentTime s) / timeStep\<rceil>"
        by linarith
      from less [OF this] obtain r where "runSimulation duration timeStep s1 = Some r" ..
      with True st Returned show ?thesis
        by (simp add: runSimulation.simps [of duration timeStep s])
    qed
  qed
qed

lemma addToWaitingQueue_consistent:
  "seating_consistent s \<Longrightarrow> seating_consistent (addToWaitingQueue party s)"
  by (simp add: addToWaitingQueue_def seating_consistent_def)

lemma seatWaitingParties_consistent:
  "seating_consistent s \<Longrightarrow> seating_consistent (fst (seatWaitingParties s))"
  by (rule seatWaitingParties_invariant [where I = seating_consistent])
     (simp_all add: seatParty_consistent, simp add: seating_consistent_def)

lemma simulateStep_consistent:
  "seating_consistent s \<Longrightarrow> seating_consistent (fst (simulateStep timeStep s))"
  unfolding simulateStep_def
  by (rule seatWaitingParties_consistent, rule evictDuePatrons_consistent)
     (simp add: seating_consistent_def)

lemma emptyTable_within:
  "within_capacity (tableStore s t) \<Longrightarrow> within_capacity (tableStore (emptyTable u s) t)"
proof -
  assume w: "within_capacity (tableStore s t)"
  have "0 \<le> real (length (patrons (tableStore s t)))" by simp
  with w have c: "0 \<le> capacity (tableStore s t)" unfolding within_capacity_def by linarith
  show ?thesis
  proof (cases "u = t")
    case True
    with c show ?thesis by (simp add: within_capacity_def emptyTable_patrons)
  next
    case False
    with w show ?thesis by (simp add: within_capacity_def emptyTable_patrons)
  qed
qed

lemma checkTable_within:
  "within_capacity (tableStore s t) \<Longrightarrow> within_capacity (tableStore (checkTable u s) t)"
  by (simp add: checkTable_def emptyTable_within split: list.split)

lemma evictDuePatrons_within:
  "within_capacity (tableStore s t) \<Longrightarrow> within_capacity (tableStore (evictDuePatrons s) t)"
proof -
  have "within_capacity (tableStore s t) \<Longrightarrow> within_capacity (tableStore (fold checkTable ts s) t)" for ts
    by (induction ts arbitrary: s) (simp_all add: checkTable_within)
  then show "within_capacity (tableStore s t) \<Longrightarrow> within_capacity (tableStore (evictDuePatrons s) t)"
    by (simp add: evictDuePatrons_def)
qed

lemma sitDown_table:
  "capacity (tableStore (fst (sitDown p t s)) u) = capacity (tableStore s u)
   \<and> (u \<noteq> t \<longrightarrow> patrons (tableStore (fst (sitDown p t s)) u) = patrons (tableStore s u))
   \<and> length (patrons (tableStore (fst (sitDown p t s)) t)) \<le> Suc (length (patrons (tableStore s t)))"
  using sitDown_cases [of p t s] by (elim disjE conjE) simp_all

lemma sitDownAll_table:
  "capacity (tableStore (fst (sitDownAll ps t s)) u) = capacity (tableStore s u)
   \<and> (u \<noteq> t \<longrightarrow> patrons (tableStore (fst (sitDownAll ps t s)) u) = patrons (tableStore s u))
   \<and> length (patrons (tableStore (fst (sitDownAll ps t s)) t))
        \<le> length (patrons (tableStore s t)) + length ps"
proof (induction ps arbitrary: s)
  case Nil
  show ?case by simp
next
  case (Cons p ps)
  obtain s1 r where sd: "sitDown p t s = (s1, r)" by (cases "sitDown p t s")
  from sitDown_table [of p t s u] sd
  have a: "capacity (tableStore s1 u) = capacity (tableStore s u)"
    and b: "u \<noteq> t \<longrightarrow> patrons (tableStore s1 u) = patrons (tableStore s u)"
    and c: "length (patrons (tableStore s1 t)) \<le> Suc (length (patrons (tableStore s t)))"
    by simp_all
  show ?case
  proof (cases r)
    case (Threw e)
    with sd a b c show ?thesis by simp
  next
    case (Returned x)
    with sd a b c Cons.IH [of s1] show ?thesis by simp
  qed
qed

lemma seatParty_within:
  assumes "within_capacity (tableStore s u)"
  shows "within_capacity (tableStore (fst (seatParty party s)) u)"
proof (cases "findAvailableTable (getSize party) s")
  case None
  with assms show ?thesis by (simp add: seatParty_def)
next
  case (Some t)
  then have av: "patrons (tableStore s t) = []" "real (length (members party)) \<le> capacity (tableStore s t)"
    by (auto simp: findAvailableTable_def getSize_def find_Some_iff)
  from sitDownAll_table [of "members party" t s u] assms av Some show ?thesis
    by (cases "u = t") (auto simp: seatParty_def within_capacity_def)
qed

lemma seatWaitingParties_within:
  "within_capacity (tableStore s u) \<Longrightarrow> within_capacity (tableStore (fst (seatWaitingParties s)) u)"
  by (rule seatWaitingParties_invariant [where I = "\<lambda>s. within_capacity (tableStore s u)"])
     (simp_all add: seatParty_within)

lemma simulateStep_within:
  "within_capacity (tableStore s u) \<Longrightarrow> within_capacity (tableStore (fst (simulateStep timeStep s)) u)"
  unfolding simulateStep_def
  by (rule seatWaitingParties_within, rule evictDuePatrons_within) simp

lemma addPatron_within:
  assumes z: "capacity (tableStore s t) \<in> \<int>" and w: "within_capacity (tableStore s u)"
  shows "within_capacity (tableStore (fst (addPatron t p s)) u)"
proof (cases "u = t \<and> real (length (patrons (tableStore s t))) < capacity (tableStore s t)")
  case False
  with w show ?thesis by (auto simp: addPatron_def Let_def)
next
  case True
  from z obtain k :: int where k: "capacity (tableStore s t) = of_int k" by (auto elim: Ints_cases)
  with True have "int (length (patrons (tableStore s t))) < k"
    by (metis of_int_less_iff of_int_of_nat_eq)
  then have "int (length (patrons (tableStore s t))) + 1 \<le> k" by simp
  then have "real (length (patrons (tableStore s t))) + 1 \<le> of_int k"
    by (metis of_int_1 of_int_add of_int_le_iff of_int_of_nat_eq)
  with True k show ?thesis by (simp add: addPatron_def Let_def within_capacity_def)
qed

lemma sitDown_within:
  assumes z: "capacity (tableStore s t) \<in> \<int>" and w: "within_capacity (tableStore s u)"
  shows "within_capacity (tableStore (fst (sitDown p t s)) u)"
  using addPatron_within [OF z w, of p]
  by (auto simp: sitDown_def addPatron_def Let_def within_capacity_def split: if_splits)

lemma sitDown_patrons_subset:
  "p \<in> set (patrons (tableStore (fst (sitDown q t s)) u)) \<Longrightarrow>
     p \<in> set (patrons (tableStore s u)) \<or> p = q"
  using sitDown_cases [of q t s] by (elim disjE conjE) (auto split: if_splits)

lemma sitDown_stays_seated:
  "sitting_at_table (persons s p) \<noteq> None \<Longrightarrow>
     sitting_at_table (persons (fst (sitDown q t s)) p) \<noteq> None"
  using sitDown_cases [of q t s] by (elim disjE conjE) (auto split: if_splits)

lemma sitDown_Returned_seated:
  "sitDown q t s = (s1, Returned x) \<Longrightarrow> sitting_at_table (persons s1 q) = Some t"
  using sitDown_cases [of q t s] by (elim disjE conjE) auto

lemma sitDownAll_patrons_subset:
  "p \<in> set (patrons (tableStore (fst (sitDownAll ps t s)) u)) \<Longrightarrow>
     p \<in> set (patrons (tableStore s u)) \<or> p \<in> set ps"
proof (induction ps arbitrary: s)
  case Nil
  then show ?case by simp
next
  case (Cons q ps)
  obtain s1 r where sd: "sitDown q t s = (s1, r)" by (cases "sitDown q t s")
  have step: "p \<in> set (patrons (tableStore s1 u)) \<Longrightarrow> p \<in> set (patrons (tableStore s u)) \<or> p = q"
    using sitDown_patrons_subset [of p q t s u] sd by simp
  show ?case
  proof (cases r)
    case (Threw e)
    with sd Cons.prems step show ?thesis by auto
  next
    case (Returned x)
    with sd Cons.prems have "p \<in> set (patrons (tableStore (fst (sitDownAll ps t s1)) u))" by simp
    from Cons.IH [OF this] step show ?thesis by auto
  qed
qed

lemma sitDownAll_stays_seated:
  "sitting_at_table (persons s p) \<noteq> None \<Longrightarrow>
     sitting_at_table (persons (fst (sitDownAll ps t s)) p) \<noteq> None"
proof (induction ps arbitrary: s)
  case Nil
  then show ?case by simp
next
  case (Cons q ps)
  obtain s1 r where sd: "sitDown q t s = (s1, r)" by (cases "sitDown q t s")
  have s1: "sitting_at_table (persons s1 p) \<noteq> None"
    using sitDown_stays_seated [OF Cons.prems, of q t] sd by simp
  show ?case
    using sd s1 Cons.IH [OF s1] by (cases r) simp_all
qed

lemma sitDownAll_Returned_seated:
  "sitDownAll ps t s = (s', Returned b) \<Longrightarrow> p \<in> set ps \<Longrightarrow>
     sitting_at_table (persons s' p) \<noteq> None"
proof (induction ps arbitrary: s)
  case Nil
  then show ?case by simp
next
  case (Cons q ps)
  obtain s1 r where sd: "sitDown q t s = (s1, r)" by (cases "sitDown q t s")
  show ?case
  proof (cases r)
    case (Threw e)
    with sd Cons.prems show ?thesis by simp
  next
    case (Returned x)
    with sd Cons.prems have rest: "sitDownAll ps t s1 = (s', Returned b)" by simp
    show ?thesis
    proof (cases "p \<in> set ps")
      case True
      from Cons.IH [OF rest True] show ?thesis .
    next
      case False
      with Cons.prems have "p = q" by simp
      with sd Returned have "sitting_at_table (persons s1 p) \<noteq> None"
        using sitDown_Returned_seated [of q t s s1 x] by simp
      from sitDownAll_stays_seated [OF this, of ps t] rest show ?thesis by simp
    qed
  qed
qed

lemma seatParty_patrons_subset:
  "p \<in> set (patrons (tableStore (fst (seatParty party s)) u)) \<Longrightarrow>
     p \<in> set (patrons (tableStore s u)) \<or> p \<in> set (members party)"
  by (auto simp: seatParty_def split: option.splits dest: sitDownAll_patrons_subset)

lemma seatParty_stays_seated:
  "sitting_at_table (persons s p) \<noteq> None \<Longrightarrow>
     sitting_at_table (persons (fst (seatParty party s)) p) \<noteq> None"
  using sitDownAll_stays_seated [of s p "members party"]
  by (cases "findAvailableTable (getSize party) s") (simp_all add: seatParty_def)

lemma seatWaitingParties_stays_seated:
  "sitting_at_table (persons s p) \<noteq> None \<Longrightarrow>
     sitting_at_table (persons (fst (seatWaitingParties s)) p) \<noteq> None"
  by (rule seatWaitingParties_invariant [where I = "\<lambda>s. sitting_at_table (persons s p) \<noteq> None"])
     (simp_all add: seatParty_stays_seated)

lemma findAvailableTable_waitingQueue [simp]:
  "findAvailableTable n (s\<lparr>waitingQueue := q\<rparr>) = findAvailableTable n s"
  by (simp add: findAvailableTable_def)

lemma seatParty_found_seated:
  assumes f: "findAvailableTable (getSize party) s = Some t"
    and r: "seatParty party s = (s1, Returned b)"
    and p: "p \<in> set (members party)"
  shows "sitting_at_table (persons s1 p) \<noteq> None"
  using f r p by (auto simp: seatParty_def dest: sitDownAll_Returned_seated)

lemma seatWaitingParties_admits_prefix: "\<exists>k. admits_prefix s k"
proof (induction s rule: seatWaitingParties.induct)
  case (1 s)
  show ?case
  proof (cases "waitingQueue s")
    case Nil
    then have "admits_prefix s 0"
      by (simp add: admits_prefix_def seatWaitingParties.simps [of s])
    then show ?thesis ..
  next
    case (Cons nextParty rest)
    show ?thesis
    proof (cases "findAvailableTable (getSize nextParty) s")
      case None
      with Cons have "admits_prefix s 0"
        by (simp add: admits_prefix_def seatWaitingParties.simps [of s])
      then show ?thesis ..
    next
      case (Some t)
      obtain s1 r where sp: "seatParty nextParty (s\<lparr>waitingQueue := rest\<rparr>) = (s1, r)"
        by (cases "seatParty nextParty (s\<lparr>waitingQueue := rest\<rparr>)")
      have q1: "waitingQueue s1 = rest"
        using seatParty_waitingQueue [of nextParty "s\<lparr>waitingQueue := rest\<rparr>"] sp by simp
      have sub1: "p \<in> set (patrons (tableStore s1 u)) \<Longrightarrow>
          p \<in> set (patrons (tableStore s u)) \<or> p \<in> set (members nextParty)" for p u
        using seatParty_patrons_subset [of p nextParty "s\<lparr>waitingQueue := rest\<rparr>" u] sp by simp
      show ?thesis
      proof (cases r)
        case (Threw e)
        with Cons Some sp have res: "seatWaitingParties s = (s1, Threw e)"
          by (simp add: seatWaitingParties.simps [of s])
        have "admits_prefix s 1"
          unfolding admits_prefix_def Let_def res
          using Cons q1 sub1 by auto
        then show ?thesis ..
      next
        case (Returned b)
        with Cons Some sp have res: "seatWaitingParties s = seatWaitingParties s1"
          by (simp add: seatWaitingParties.simps [of s])
        from "1.IH" [OF Cons Some sp [symmetric] Returned]
        obtain k where k: "admits_prefix s1 k" ..
        have seated1: "p \<in> set (members nextParty) \<Longrightarrow> sitting_at_table (persons s1 p) \<noteq> None" for p
          using seatParty_found_seated [of nextParty "s\<lparr>waitingQueue := rest\<rparr>" t s1 b p] Some sp Returned
          by simp
        have "admits_prefix s (Suc k)"
          unfolding admits_prefix_def Let_def res
        proof (intro conjI allI impI ballI)
          show "Suc k \<le> length (waitingQueue s)"
            using k q1 Cons by (simp add: admits_prefix_def Let_def)
          show "waitingQueue (fst (seatWaitingParties s1)) = drop (Suc k) (waitingQueue s)"
            using k q1 Cons by (simp add: admits_prefix_def Let_def)
        next
          fix u p
          assume "p \<in> set (patrons (tableStore (fst (seatWaitingParties s1)) u))"
          with k have "p \<in> set (patrons (tableStore s1 u))
             \<or> (\<exists>party \<in> set (take k (waitingQueue s1)). p \<in> set (members party))"
            by (simp add: admits_prefix_def Let_def)
          with sub1 [of p u] q1 Cons
          show "p \<in> set (patrons (tableStore s u))
             \<or> (\<exists>party \<in> set (take (Suc k) (waitingQueue s)). p \<in> set (members party))"
            by auto
        next
          fix party p
          assume ok: "snd (seatWaitingParties s1) = Returned ()"
            and party: "party \<in> set (take (Suc k) (waitingQueue s))"
            and p: "p \<in> set (members party)"
          from party Cons q1 have "party = nextParty \<or> party \<in> set (take k (waitingQueue s1))"
            by auto
          then show "sitting_at_table (persons (fst (seatWaitingParties s1)) p) \<noteq> None"
          proof
            assume "party = nextParty"
            with p seated1 [of p] seatWaitingParties_stays_seated [of s1 p] show ?thesis by simp
          next
            assume "party \<in> set (take k (waitingQueue s1))"
            with k ok p show ?thesis by (auto simp: admits_prefix_def Let_def)
          qed
        next
          assume ok: "snd (seatWaitingParties s1) = Returned ()"
          with k q1 Cons
          show "case drop (Suc k) (waitingQueue s) of
                  [] \<Rightarrow> True
                | party # x \<Rightarrow> findAvailableTable (getSize party) (fst (seatWaitingParties s1)) = None"
            by (simp add: admits_prefix_def Let_def)
        qed
        then show ?thesis ..
      qed
    qed
  qed
qed

lemma maxDiningTime_Max:
  "maxDiningTime s p ps = Max ((\<lambda>q. actualDiningTime (persons s q)) ` set (p # ps))"
proof -
  have "fold max (map (\<lambda>q. actualDiningTime (persons s q)) ps) (actualDiningTime (persons s p))
      = Max (set (actualDiningTime (persons s p) # map (\<lambda>q. actualDiningTime (persons s q)) ps))"
    by (rule Max.set_eq_fold [symmetric])
  then show ?thesis by (simp add: maxDiningTime_def)
qed

lemma dining_elapsed_Max:
  "patrons (tableStore s t) \<noteq> [] \<Longrightarrow>
     dining_elapsed s t \<longleftrightarrow>
       Max ((\<lambda>q. actualDiningTime (persons s q)) ` set (patrons (tableStore s t))) \<le> currentTime s"
  by (cases "patrons (tableStore s t)") (simp_all add: dining_elapsed_def maxDiningTime_Max)

lemma checkTable_elapsed:
  "checkTable t s = (if dining_elapsed s t then emptyTable t s else s)"
  by (simp add: checkTable_def dining_elapsed_def split: list.split)

lemma maxDiningTime_cong:
  "(\<And>q. actualDiningTime (persons s' q) = actualDiningTime (persons s q)) \<Longrightarrow>
     maxDiningTime s' p ps = maxDiningTime s p ps"
  by (simp add: maxDiningTime_def)

lemma checkTable_patrons:
  "patrons (tableStore (checkTable u s) t) =
     (if t = u \<and> dining_elapsed s u then [] else patrons (tableStore s t))"
  by (simp add: checkTable_elapsed emptyTable_patrons)

lemma checkTable_actualDiningTime [simp]:
  "actualDiningTime (persons (checkTable u s) q) = actualDiningTime (persons s q)"
  by (simp add: checkTable_elapsed)

lemma checkTable_sitting:
  "sitting_at_table (persons (checkTable u s) q) =
     (if dining_elapsed s u \<and> q \<in> set (patrons (tableStore s u))
         \<and> sitting_at_table (persons s q) = Some u
      then None else sitting_at_table (persons s q))"
  by (simp add: checkTable_elapsed emptyTable_sitting)

lemma checkTable_dining_elapsed:
  "dining_elapsed (checkTable u s) t \<longleftrightarrow> dining_elapsed s t \<and> \<not> (t = u)"
proof -
  have m: "maxDiningTime (checkTable u s) p ps = maxDiningTime s p ps" for p ps
    by (rule maxDiningTime_cong) simp
  show ?thesis
    by (cases "t = u")
       (auto simp: dining_elapsed_def checkTable_patrons m split: list.splits)
qed

lemma fold_checkTable_patrons:
  "patrons (tableStore (fold checkTable ts s) t) =
     (if t \<in> set ts \<and> dining_elapsed s t then [] else patrons (tableStore s t))"
proof (induction ts arbitrary: s)
  case Nil
  show ?case by simp
next
  case (Cons u ts)
  show ?case
    by (auto simp: Cons.IH checkTable_patrons checkTable_dining_elapsed)
qed

lemma fold_checkTable_sitting:
  "sitting_at_table (persons (fold checkTable ts s) q) =
     (if \<exists>u \<in> set ts. dining_elapsed s u \<and> q \<in> set (patrons (tableStore s u))
            \<and> sitting_at_table (persons s q) = Some u
      then None else sitting_at_table (persons s q))"
proof (induction ts arbitrary: s)
  case Nil
  show ?case by simp
next
  case (Cons u ts)
  show ?case
    by (auto simp: Cons.IH checkTable_patrons checkTable_dining_elapsed checkTable_sitting)
qed

lemma seatWaitingParties_empty:
  "waitingQueue s = [] \<Longrightarrow> seatWaitingParties s = (s, Returned ())"
  by (simp add: seatWaitingParties.simps [of s])

lemma evictDuePatrons_waitingQueue [simp]: "waitingQueue (evictDuePatrons s) = waitingQueue s"
proof -
  have "waitingQueue (fold checkTable ts s) = waitingQueue s" for ts
    by (induction ts arbitrary: s) (simp_all add: checkTable_elapsed)
  then show ?thesis by (simp add: evictDuePatrons_def)
qed

lemma simulateStep_empty_queue:
  "waitingQueue s = [] \<Longrightarrow>
     simulateStep timeStep s = (evictDuePatrons (s\<lparr>currentTime := currentTime s + timeStep\<rparr>), Returned ())"
  by (simp add: simulateStep_def seatWaitingParties_empty)

lemma runSimulation_induct:
  assumes run: "runSimulation duration timeStep s = Some r"
    and stop: "\<And>s. \<not> currentTime s < duration \<Longrightarrow> P s (s, Returned ())"
    and thrown: "\<And>s s1 e. currentTime s < duration \<Longrightarrow> simulateStep timeStep s = (s1, Threw e)
                   \<Longrightarrow> P s (s1, Threw e)"
    and step: "\<And>s s1 u r. currentTime s < duration \<Longrightarrow> simulateStep timeStep s = (s1, Returned u)
                   \<Longrightarrow> runSimulation duration timeStep s1 = Some r \<Longrightarrow> P s1 r \<Longrightarrow> P s r"
  shows "P s r"
proof -
  have "duration = duration \<and> timeStep = timeStep
          \<longrightarrow> runSimulation duration timeStep s = Some r \<and> P s r"
  proof (rule runSimulation.raw_induct
      [where P = "\<lambda>d ts s r. d = duration \<and> ts = timeStep
                     \<longrightarrow> runSimulation d ts s = Some r \<and> P s r", OF _ run])
    fix run' d ts s' y
    assume IH: "\<And>d ts s y. run' d ts s = Some y \<Longrightarrow>
                 d = duration \<and> ts = timeStep \<longrightarrow> runSimulation d ts s = Some y \<and> P s y"
      and eq: "(if currentTime s' < d
                then case simulateStep ts s' of
                       (s1, Returned x) \<Rightarrow> run' d ts s1
                     | (s1, Threw e) \<Rightarrow> Some (s1, Threw e)
                else Some (s', Returned ())) = Some y"
    show "d = duration \<and> ts = timeStep \<longrightarrow> runSimulation d ts s' = Some y \<and> P s' y"
    proof
      assume dt: "d = duration \<and> ts = timeStep"
      show "runSimulation d ts s' = Some y \<and> P s' y"
      proof (cases "currentTime s' < d")
        case False
        with eq have "y = (s', Returned ())" by simp
        moreover from False have "runSimulation d ts s' = Some (s', Returned ())"
          by (simp add: runSimulation.simps [of d ts s'])
        moreover from False dt have "P s' (s', Returned ())" by (simp add: stop)
        ultimately show ?thesis by simp
      next
        case True
        obtain s1 o1 where st: "simulateStep ts s' = (s1, o1)"
          by (cases "simulateStep ts s'")
        show ?thesis
        proof (cases o1)
          case (Threw e)
          with True st eq have y: "y = (s1, Threw e)" by simp
          from True st Threw have "runSimulation d ts s' = Some (s1, Threw e)"
            by (simp add: runSimulation.simps [of d ts s'])
          moreover from True st Threw dt have "P s' (s1, Threw e)" by (simp add: thrown)
          ultimately show ?thesis using y by simp
        next
          case (Returned u)
          with True st eq have "run' d ts s1 = Some y" by simp
          from IH [OF this] dt have r1: "runSimulation d ts s1 = Some y" and p1: "P s1 y"
            by simp_all
          from True st Returned r1 have "runSimulation d ts s' = Some y"
            by (simp add: runSimulation.simps [of d ts s'])
          moreover from step [of s' s1 u y] True st Returned r1 p1 dt have "P s' y" by simp
          ultimately show ?thesis ..
        qed
      qed
    qed
  qed
  then show ?thesis by simp
qed

lemma runSimulation_Returned_reached:
  "runSimulation duration timeStep s = Some (s', Returned u) \<Longrightarrow> duration \<le> currentTime s'"
proof -
  assume run: "runSimulation duration timeStep s = Some (s', Returned u)"
  have "snd r = Returned () \<longrightarrow> duration \<le> currentTime (fst r)"
    if "runSimulation duration timeStep s = Some r" for r
    using that by (rule runSimulation_induct) simp_all
  from this [OF run] show ?thesis by simp
qed

lemma runSimulation_nonpositive_throws:
  assumes run: "runSimulation duration timeStep s = Some r"
    and np: "timeStep \<le> 0"
  shows "currentTime s < duration \<longrightarrow> (\<exists>e. snd r = Threw e)"
  using run
proof (rule runSimulation_induct)
  fix s s1 :: state and u :: unit and r :: "state \<times> unit outcome"
  assume lt: "currentTime s < duration"
    and st: "simulateStep timeStep s = (s1, Returned u)"
    and IH: "currentTime s1 < duration \<longrightarrow> (\<exists>e. snd r = Threw e)"
  have "currentTime s1 = currentTime s + timeStep"
    using simulateStep_currentTime [of timeStep s] st by simp
  with np lt have "currentTime s1 < duration" by simp
  with IH show "currentTime s < duration \<longrightarrow> (\<exists>e. snd r = Threw e)" by simp
qed simp_all

lemma runSimulation_empty_queue_returns:
  assumes run: "runSimulation duration timeStep s = Some r"
  shows "waitingQueue s = [] \<longrightarrow> snd r = Returned ()"
  using run
proof (rule runSimulation_induct)
  fix s s1 e
  assume "simulateStep timeStep s = (s1, Threw e)"
  then show "waitingQueue s = [] \<longrightarrow> snd (s1, Threw e) = Returned ()"
    by (auto simp: simulateStep_empty_queue)
next
  fix s s1 :: state and u :: unit and r :: "state \<times> unit outcome"
  assume st: "simulateStep timeStep s = (s1, Returned u)"
    and IH: "waitingQueue s1 = [] \<longrightarrow> snd r = Returned ()"
  show "waitingQueue s = [] \<longrightarrow> snd r = Returned ()"
  proof
    assume q: "waitingQueue s = []"
    with st have "waitingQueue s1 = []" by (auto simp: simulateStep_empty_queue)
    with IH show "snd r = Returned ()" by simp
  qed
qed simp

lemma runSimulation_diverges:
  assumes np: "timeStep \<le> 0" and lt: "currentTime s < duration" and q: "waitingQueue s = []"
  shows "runSimulation duration timeStep s = None"
proof (cases "runSimulation duration timeStep s")
  case None
  then show ?thesis .
next
  case (Some r)
  from runSimulation_nonpositive_throws [OF Some np] lt obtain e where "snd r = Threw e" by auto
  moreover from runSimulation_empty_queue_returns [OF Some] q have "snd r = Returned ()" by simp
  ultimately show ?thesis by simp
qed

lemma ex_twice_throws:
  "\<exists>s'. runSimulation 10 0 ex_twice = Some (s', Threw (AlreadySitting ''guest''))"
proof -
  have c: "currentTime ex_twice < 10" by (simp add: ex_twice_def ex_defs)
  have "snd (simulateStep 0 ex_twice) = Threw (AlreadySitting ''guest'')"
    by (simp add: ex_twice_def ex_defs op_defs)
  then obtain s1 where st: "simulateStep 0 ex_twice = (s1, Threw (AlreadySitting ''guest''))"
    by (cases "simulateStep 0 ex_twice") auto
  from c st have "runSimulation 10 0 ex_twice = Some (s1, Threw (AlreadySitting ''guest''))"
    by (simp add: runSimulation.simps [of 10 0 ex_twice])
  then show ?thesis ..
qed

section \<open>Seating consistency\<close>



section \<open>Admission of waiting parties\<close>



section \<open>Eviction\<close>

text \<open>
  Claim C3. In the eviction phase of a step, a table of the restaurant that has a
  patron is emptied if and only if the advanced clock has reached the largest dining
  time among its patrons. Otherwise its patrons are the same as before. The patrons
  who were seated at the table have their reference cleared when the table is emptied,
  and keep it when it is not: nobody leaves alone.
\<close>

theorem group_departure:
  assumes t: "t \<in> set (tables s)" and ne: "patrons (tableStore s t) \<noteq> []"
  shows "(patrons (tableStore (evictDuePatrons (s\<lparr>currentTime := currentTime s + timeStep\<rparr>)) t) = []
           \<longleftrightarrow> Max ((\<lambda>q. actualDiningTime (persons s q)) ` set (patrons (tableStore s t)))
                 \<le> currentTime s + timeStep)
       \<and> (patrons (tableStore (evictDuePatrons (s\<lparr>currentTime := currentTime s + timeStep\<rparr>)) t) = []
          \<or> patrons (tableStore (evictDuePatrons (s\<lparr>currentTime := currentTime s + timeStep\<rparr>)) t)
              = patrons (tableStore s t))
       \<and> (\<forall>q \<in> set (patrons (tableStore s t)).
             sitting_at_table (persons s q) = Some t \<longrightarrow>
             sitting_at_table (persons (evictDuePatrons (s\<lparr>currentTime := currentTime s + timeStep\<rparr>)) q)
               = (if patrons (tableStore (evictDuePatrons (s\<lparr>currentTime := currentTime s + timeStep\<rparr>)) t) = []
                  then None else Some t))"
proof -
  let ?s = "s\<lparr>currentTime := currentTime s + timeStep\<rparr>"
  have el: "dining_elapsed ?s t \<longleftrightarrow>
      Max ((\<lambda>q. actualDiningTime (persons s q)) ` set (patrons (tableStore s t))) \<le> currentTime s + timeStep"
    using dining_elapsed_Max [of ?s t] ne by simp
  have pat: "patrons (tableStore (evictDuePatrons ?s) t) =
      (if dining_elapsed ?s t then [] else patrons (tableStore s t))"
    using t by (simp add: evictDuePatrons_def fold_checkTable_patrons)
  have sit: "sitting_at_table (persons (evictDuePatrons ?s) q) =
      (if dining_elapsed ?s t then None else Some t)"
    if "q \<in> set (patrons (tableStore s t))" "sitting_at_table (persons s q) = Some t" for q
    using t that by (auto simp: evictDuePatrons_def fold_checkTable_sitting)
  show ?thesis
    using el pat sit ne by auto
qed

text \<open>
  In \<open>ex_blocked\<close> the first table holds persons 1 and 2 with dining times 30 and 50.
  At 40 both stay; at 50 both leave.
\<close>

theorem group_departure_witness:
  "0 \<in> set (tables ex_blocked) \<and> patrons (tableStore ex_blocked 0) = [1, 2]
   \<and> map (\<lambda>q. actualDiningTime (persons ex_blocked q)) [1, 2] = [30, 50]
   \<and> map (\<lambda>q. sitting_at_table (persons ex_blocked q)) [1, 2] = [Some 0, Some 0]
   \<and> patrons (tableStore (evictDuePatrons (ex_blocked\<lparr>currentTime := currentTime ex_blocked + 40\<rparr>)) 0)
       = [1, 2]
   \<and> map (\<lambda>q. sitting_at_table
         (persons (evictDuePatrons (ex_blocked\<lparr>currentTime := currentTime ex_blocked + 40\<rparr>)) q)) [1, 2]
       = [Some 0, Some 0]
   \<and> patrons (tableStore (evictDuePatrons (ex_blocked\<lparr>currentTime := currentTime ex_blocked + 50\<rparr>)) 0)
       = []
   \<and> map (\<lambda>q. sitting_at_table
         (persons (evictDuePatrons (ex_blocked\<lparr>currentTime := currentTime ex_blocked + 50\<rparr>)) q)) [1, 2]
       = [None, None]"
proof -
  have t: "0 \<in> set (tables ex_blocked)" by (simp add: ex_defs)
  have p: "patrons (tableStore ex_blocked 0) = [1, 2]" by (simp add: ex_defs)
  then have ne: "patrons (tableStore ex_blocked 0) \<noteq> []" by simp
  have a: "map (\<lambda>q. actualDiningTime (persons ex_blocked q)) [1, 2] = [30, 50]"
    by (simp add: ex_defs)
  have s: "map (\<lambda>q. sitting_at_table (persons ex_blocked q)) [1, 2] = [Some 0, Some 0]"
    by (simp add: ex_defs)
  have c: "currentTime ex_blocked = 0" by (simp add: ex_defs)
  from group_departure [OF t ne, of 40] group_departure [OF t ne, of 50] t p a s c
  show ?thesis by auto
qed

section \<open>Table selection\<close>

text \<open>
  Claim C4. For every party size \<open>n\<close>, \<open>findAvailableTable\<close> returns the first table in
  the order of the restaurant's table list that has no patron and a capacity of at
  least \<open>n\<close>: the table at some index \<open>i\<close> qualifies and no table at an index below \<open>i\<close>
  does. It returns no table exactly when no table of the list qualifies. A table with a
  patron never qualifies, whatever its free seats, and a tighter table further down the
  list is not preferred.
\<close>

theorem findAvailableTable_first_fit:
  "(findAvailableTable n s = Some t \<longleftrightarrow>
      (\<exists>i < length (tables s). tables s ! i = t
         \<and> patrons (tableStore s t) = [] \<and> real n \<le> capacity (tableStore s t)
         \<and> (\<forall>j < i. \<not> (patrons (tableStore s (tables s ! j)) = []
                        \<and> real n \<le> capacity (tableStore s (tables s ! j))))))
   \<and> (findAvailableTable n s = None \<longleftrightarrow>
      (\<forall>t \<in> set (tables s).
          \<not> (patrons (tableStore s t) = [] \<and> real n \<le> capacity (tableStore s t))))"
  unfolding findAvailableTable_def find_Some_iff find_None_iff
  by auto

text \<open>
  In \<open>ex_tables\<close> a party of two gets the second table: the first has five free seats
  but a patron, the third would fit exactly but comes later. A party of seven gets none.
\<close>

theorem findAvailableTable_first_fit_witness:
  "findAvailableTable 2 ex_tables = Some 1
   \<and> (\<exists>i < length (tables ex_tables). tables ex_tables ! i = 1
         \<and> patrons (tableStore ex_tables 1) = []
         \<and> real 2 \<le> capacity (tableStore ex_tables 1)
         \<and> (\<forall>j < i. \<not> (patrons (tableStore ex_tables (tables ex_tables ! j)) = []
                        \<and> real 2 \<le> capacity (tableStore ex_tables (tables ex_tables ! j)))))
   \<and> patrons (tableStore ex_tables 0) = [7] \<and> capacity (tableStore ex_tables 0) = 6
   \<and> patrons (tableStore ex_tables 2) = [] \<and> capacity (tableStore ex_tables 2) = 2
   \<and> findAvailableTable 7 ex_tables = None"
proof -
  have e: "findAvailableTable 2 ex_tables = Some 1"
    by (simp add: findAvailableTable_def ex_tables_def new_Restaurant_def new_Table_def)
  have n: "findAvailableTable 7 ex_tables = None"
    by (simp add: findAvailableTable_def ex_tables_def new_Restaurant_def new_Table_def)
  from e n findAvailableTable_first_fit [of 2 ex_tables 1] show ?thesis
    by (simp add: ex_tables_def new_Restaurant_def new_Table_def)
qed

section \<open>Leaving a table\<close>

text \<open>
  Claim C5, as stated: asking a person to leave a table they are not seated at fails
  as an error and is never a silent no-op. This fails: \<open>leaveTable\<close> has a branch
  for this case which does nothing, and it cannot throw. In \<open>ex_blocked\<close> person 3 is
  not seated and person 1 is seated at table 0; asking person 3 to leave table 0, or
  person 1 to leave table 1, returns the state as it was.
\<close>

theorem leaveTable_silent_counterexample:
  "sitting_at_table (persons ex_blocked 3) = None
   \<and> leaveTable 3 0 ex_blocked = ex_blocked
   \<and> sitting_at_table (persons ex_blocked 1) = Some 0
   \<and> leaveTable 1 1 ex_blocked = ex_blocked"
  by (simp add: leaveTable_def ex_defs)

text \<open>
  Claim C5, amended. Asking a person to leave a table they are not seated at (the
  reference is empty or is another table) is a no-op that leaves the state unchanged and
  reports nothing; asking a person to leave the table they are seated at clears the
  reference.
\<close>

theorem leaveTable_mismatch:
  "(sitting_at_table (persons s p) \<noteq> Some t \<longrightarrow> leaveTable p t s = s)
   \<and> (sitting_at_table (persons s p) = Some t \<longrightarrow>
        leaveTable p t s = s\<lparr>persons := (persons s)(p := (persons s p)\<lparr>sitting_at_table := None\<rparr>)\<rparr>)"
  by (simp add: leaveTable_def)

theorem leaveTable_mismatch_witness:
  "sitting_at_table (persons ex_blocked 1) \<noteq> Some 1
   \<and> leaveTable 1 1 ex_blocked = ex_blocked
   \<and> sitting_at_table (persons ex_blocked 1) = Some 0
   \<and> sitting_at_table (persons (leaveTable 1 0 ex_blocked) 1) = None"
proof -
  have a: "sitting_at_table (persons ex_blocked 1) = Some 0" by (simp add: ex_defs)
  from leaveTable_mismatch [of ex_blocked 1 1] leaveTable_mismatch [of ex_blocked 1 0] a
  show ?thesis by simp
qed

section \<open>Running the simulation\<close>

text \<open>
  Claim C6, as stated: \<open>runSimulation\<close> with a duration of 0, or any duration that the
  clock has reached already, still executes a step. This fails: the loop tests
  \<^verbatim>\<open>currentTime < duration\<close> before its first round. In \<open>ex_blocked\<close>, where the clock
  is 0, a run of duration 0 returns the state as it was, and a step of 5 would have moved
  the clock to 5.
\<close>

theorem zero_duration_counterexample:
  "runSimulation 0 5 ex_blocked = Some (ex_blocked, Returned ())
   \<and> currentTime (fst (simulateStep 5 ex_blocked)) = 5
   \<and> currentTime ex_blocked = 0"
  by (simp add: runSimulation.simps [of 0 5 ex_blocked] simulateStep_currentTime) (simp add: ex_defs)

text \<open>
  Claim C6, amended. For every time step, \<open>runSimulation\<close> with a duration that the
  clock has reached already (0 on a new restaurant) executes no step: it returns at once
  and leaves the state, the clock included, unchanged.
\<close>

theorem runSimulation_no_step:
  "duration \<le> currentTime s \<Longrightarrow> runSimulation duration timeStep s = Some (s, Returned ())"
  by (simp add: runSimulation.simps [of duration timeStep s])

theorem runSimulation_no_step_witness:
  "(0::real) \<le> currentTime ex_blocked \<and> runSimulation 0 5 ex_blocked = Some (ex_blocked, Returned ())"
proof -
  have c: "0 \<le> currentTime ex_blocked" by (simp add: ex_defs)
  from runSimulation_no_step [OF c, of 5] c show ?thesis by simp
qed




section \<open>Construction\<close>

text \<open>
  Claim C8, as stated: constructing a table with a capacity of 0 or less, a party without
  members, or a dining time whose lower bound exceeds its upper bound fails, and no such
  object exists. This fails: the three constructors store their arguments and check
  nothing, so these objects are constructed.
\<close>

theorem constructors_counterexample:
  "new_Table 1 0 [] = \<lparr>table_id = 1, capacity = 0, patrons = []\<rparr>
   \<and> new_Table 1 (- 2) [] = \<lparr>table_id = 1, capacity = - 2, patrons = []\<rparr>
   \<and> new_Party [] = \<lparr>members = []\<rparr>
   \<and> new_DiningTime 90 30 = \<lparr>lowerBound = 90, upperBound = 30\<rparr>"
  by (simp add: new_Table_def new_Party_def new_DiningTime_def)

text \<open>
  Claim C8, amended. The constructors of \<open>Table\<close>, \<open>Party\<close> and \<open>DiningTime\<close> accept
  every argument and store it as it is given: a table has the capacity, the identifier
  and the patrons it was constructed with, a party its members, a dining time its two
  bounds, whatever these values are.
\<close>

theorem constructors_store_arguments:
  "capacity (new_Table i c ps) = c \<and> table_id (new_Table i c ps) = i \<and> patrons (new_Table i c ps) = ps
   \<and> members (new_Party ms) = ms
   \<and> lowerBound (new_DiningTime lo hi) = lo \<and> upperBound (new_DiningTime lo hi) = hi"
  by (simp add: new_Table_def new_Party_def new_DiningTime_def)

section \<open>Capacity bound\<close>




section \<open>Termination of a run\<close>




end
